theory Spec2Isabelle
  imports Complex_Main "HOL-Library.Sublist"
begin

section \<open>Python strings\<close>

text \<open>
  A Python \<open>str\<close> is a sequence of Unicode code points. The bullet marker U+2022 is one
  character of the source's strings, so a string is modelled as a list of code points
  (natural numbers), not as a list of bytes. \<open>ascii\<close> writes an ASCII literal.
\<close>

type_synonym pystr = "nat list"

definition ascii :: "string \<Rightarrow> pystr" where
  "ascii s = map of_char s"

text \<open>
  \<open>str.isspace\<close> for one code point: U+0009..U+000D, U+001C..U+0020, U+0085, U+00A0,
  U+1680, U+2000..U+200A, U+2028, U+2029, U+202F, U+205F, U+3000.
\<close>

definition isspace :: "nat \<Rightarrow> bool" where
  "isspace c \<longleftrightarrow>
     (9 \<le> c \<and> c \<le> 13) \<or> (28 \<le> c \<and> c \<le> 32) \<or> c = 133 \<or> c = 160 \<or> c = 5760 \<or>
     (8192 \<le> c \<and> c \<le> 8202) \<or> c = 8232 \<or> c = 8233 \<or> c = 8239 \<or> c = 8287 \<or> c = 12288"

definition lstrip :: "pystr \<Rightarrow> pystr" where
  "lstrip s = dropWhile isspace s"

definition rstrip :: "pystr \<Rightarrow> pystr" where
  "rstrip s = rev (dropWhile isspace (rev s))"

definition strip :: "pystr \<Rightarrow> pystr" where
  "strip s = rstrip (lstrip s)"

text \<open>\<open>s.startswith(p)\<close>, and \<open>s.startswith((p1, p2, ...))\<close> with a tuple of prefixes.\<close>

definition startswith :: "pystr \<Rightarrow> pystr \<Rightarrow> bool" where
  "startswith s p \<longleftrightarrow> take (length p) s = p"

fun startswith_any :: "pystr \<Rightarrow> pystr list \<Rightarrow> bool" where
  "startswith_any s [] = False"
| "startswith_any s (p # ps) = (startswith s p \<or> startswith_any s ps)"

text \<open>
  \<open>str.splitlines()\<close>: a line ends at LF, CR, CR LF, VT, FF, FS, GS, RS, NEL (U+0085),
  LS (U+2028) or PS (U+2029); the line ends are not kept, and a text that ends with a
  line end has no empty last line. \<open>cur\<close> is the line read so far.
\<close>

definition is_linebreak :: "nat \<Rightarrow> bool" where
  "is_linebreak c \<longleftrightarrow>
     c = 10 \<or> c = 11 \<or> c = 12 \<or> c = 13 \<or> c = 28 \<or> c = 29 \<or> c = 30 \<or> c = 133 \<or>
     c = 8232 \<or> c = 8233"

fun splitlines_from :: "pystr \<Rightarrow> pystr \<Rightarrow> pystr list" where
  "splitlines_from cur [] = (if cur = [] then [] else [cur])"
| "splitlines_from cur [c] =
     (if is_linebreak c then [cur] else [cur @ [c]])"
| "splitlines_from cur (c # d # cs) =
     (if c = 13 \<and> d = 10 then cur # splitlines_from [] cs
      else if is_linebreak c then cur # splitlines_from [] (d # cs)
      else splitlines_from (cur @ [c]) (d # cs))"

definition splitlines :: "pystr \<Rightarrow> pystr list" where
  "splitlines s = splitlines_from [] s"

text \<open>\<open>sep.join(parts)\<close>.\<close>

fun join :: "pystr \<Rightarrow> pystr list \<Rightarrow> pystr" where
  "join sep [] = []"
| "join sep [x] = x"
| "join sep (x # y # ys) = x @ sep @ join sep (y # ys)"

section \<open>Exceptions\<close>

text \<open>An exception, with the text \<open>str(e)\<close> gives for it.\<close>

datatype py_exception = RuntimeError pystr | APIError pystr | ValueError pystr

section \<open>The markdown to flowables converter\<close>

text \<open>
  The ReportLab objects the converter builds are data: a paragraph style is either an
  entry of the style sheet passed in or a \<open>ParagraphStyle\<close> derived from a parent with
  some attributes overridden; a flowable is a \<open>Paragraph\<close>, a \<open>Spacer\<close>, a \<open>ListItem\<close> or a
  \<open>ListFlowable\<close> (items, bulletType, start, leftIndent).
\<close>

datatype para_style = SheetStyle string
  | ParagraphStyle string para_style "(string \<times> nat) list"

type_synonym stylesheet = "string \<Rightarrow> para_style"

datatype flowable = Paragraph pystr para_style
  | Spacer nat nat
  | ListItem flowable nat
  | ListFlowable "flowable list" string pystr nat

text \<open>
  ReportLab is a library, not part of the repository. The call \<open>Paragraph(text, style)\<close>
  parses \<open>text\<close> as paragraph markup, in which \<open><\<close> starts a tag and \<open>&\<close> an entity, and
  raises \<open>ValueError\<close> when the parse fails; the converter has no \<open>try\<close>, so the exception
  leaves it. On which marked-up texts the parse fails is the parameter \<open>rejects\<close>; a
  text with neither \<open><\<close> nor \<open>&\<close> is character data and is accepted. The \<open>Paragraph\<close>
  built keeps the text and the style it was built from.
\<close>

type_synonym markup_parser = "pystr \<Rightarrow> bool"

definition has_markup :: "pystr \<Rightarrow> bool" where
  "has_markup t = list_ex (\<lambda>c. c = 60 \<or> c = 38) t"

definition paragraph_rejected :: "markup_parser \<Rightarrow> pystr \<Rightarrow> bool" where
  "paragraph_rejected rejects t \<longleftrightarrow> has_markup t \<and> rejects t"

definition new_Paragraph :: "markup_parser \<Rightarrow> pystr \<Rightarrow> para_style \<Rightarrow> py_exception + flowable" where
  "new_Paragraph rejects text style =
     (if paragraph_rejected rejects text then Inl (ValueError text)
      else Inr (Paragraph text style))"

definition body_style :: "stylesheet \<Rightarrow> para_style" where
  "body_style styles = styles ''BodyText''"

definition h2_style :: "stylesheet \<Rightarrow> para_style" where
  "h2_style styles =
     ParagraphStyle ''H2'' (styles ''Heading2'') [(''spaceBefore'', 12), (''spaceAfter'', 6)]"

definition h3_style :: "stylesheet \<Rightarrow> para_style" where
  "h3_style styles =
     ParagraphStyle ''H3'' (styles ''Heading3'') [(''spaceBefore'', 8), (''spaceAfter'', 4)]"

text \<open>The tuple of bullet markers: \<open>-\<close>, \<open>*\<close> and U+2022.\<close>

definition bullet_markers :: "pystr list" where
  "bullet_markers = [ascii ''-'', ascii ''*'', [8226]]"

text \<open>
  The inner \<open>while\<close> of the bullet branch: from index \<open>i\<close> it consumes the lines whose
  left-stripped form starts with a marker, building one \<open>ListItem\<close> around a \<open>Paragraph\<close>
  for each, and returns the index it stopped at with the items, or the exception the
  \<open>Paragraph\<close> of an item raised.
\<close>

function bullet_loop ::
  "markup_parser \<Rightarrow> stylesheet \<Rightarrow> pystr list \<Rightarrow> nat \<Rightarrow> flowable list \<Rightarrow>
     py_exception + nat \<times> flowable list" where
  "bullet_loop rejects styles lines i items =
     (if i < length lines \<and> startswith_any (lstrip (lines ! i)) bullet_markers
      then let bullet_text = strip (drop 1 (lstrip (lines ! i)))
           in (case new_Paragraph rejects bullet_text (body_style styles) of
                 Inl e \<Rightarrow> Inl e
               | Inr p \<Rightarrow> bullet_loop rejects styles lines (i + 1) (items @ [ListItem p 12]))
      else Inr (i, items))"
  by pat_completeness auto
termination
  by (relation "measure (\<lambda>(rejects, styles, lines, i, items). length lines - i)") auto

declare bullet_loop.simps [simp del]

text \<open>
  One iteration of the outer \<open>while\<close>, entered with \<open>i < len(lines)\<close>: the state is the
  index and the flowables so far; the result is the next state, or the exception raised
  in the iteration.
\<close>

definition loop_body ::
  "markup_parser \<Rightarrow> stylesheet \<Rightarrow> pystr list \<Rightarrow> nat \<times> flowable list \<Rightarrow>
     py_exception + nat \<times> flowable list" where
  "loop_body rejects styles lines st =
     (let i = fst st; flow = snd st; line = rstrip (lines ! i) in
      if strip line = [] then Inr (i + 1, flow @ [Spacer 1 6])
      else if startswith line (ascii ''## '') then
        (case new_Paragraph rejects (strip (drop 3 line)) (h2_style styles) of
           Inl e \<Rightarrow> Inl e
         | Inr p \<Rightarrow> Inr (i + 1, flow @ [p]))
      else if startswith line (ascii ''### '') then
        (case new_Paragraph rejects (strip (drop 4 line)) (h3_style styles) of
           Inl e \<Rightarrow> Inl e
         | Inr p \<Rightarrow> Inr (i + 1, flow @ [p]))
      else if startswith_any (lstrip line) bullet_markers then
        (case bullet_loop rejects styles lines i [] of
           Inl e \<Rightarrow> Inl e
         | Inr r \<Rightarrow> Inr (fst r, flow @ [ListFlowable (snd r) ''bullet'' [8226] 6, Spacer 1 4]))
      else
        (case new_Paragraph rejects line (body_style styles) of
           Inl e \<Rightarrow> Inl e
         | Inr p \<Rightarrow> Inr (i + 1, flow @ [p])))"

text \<open>
  The outer \<open>while i < len(lines)\<close>. Nothing in its definition says that it ends: not
  ending is the value \<open>None\<close>; ending is \<open>Some\<close> of the exception raised or of the
  flowables returned. That it always ends is proved below.
\<close>

partial_function (option) outer_loop ::
  "markup_parser \<Rightarrow> stylesheet \<Rightarrow> pystr list \<Rightarrow> nat \<Rightarrow> flowable list \<Rightarrow>
     (py_exception + flowable list) option" where
  "outer_loop rejects styles lines i flow =
     (if i < length lines
      then (case loop_body rejects styles lines (i, flow) of
              Inl e \<Rightarrow> Some (Inl e)
            | Inr st \<Rightarrow> outer_loop rejects styles lines (fst st) (snd st))
      else Some (Inr flow))"

definition markdown_to_flowables ::
  "markup_parser \<Rightarrow> pystr \<Rightarrow> stylesheet \<Rightarrow> (py_exception + flowable list) option" where
  "markdown_to_flowables rejects md_text styles =
     outer_loop rejects styles (splitlines md_text) 0 []"


text \<open>
  The elements of the specification's data model, as the flowables the source builds for
  them. The source builds two spacers: \<open>Spacer(1, 6)\<close> for a blank line and
  \<open>Spacer(1, 4)\<close> after a list.
\<close>

definition Heading2 :: "stylesheet \<Rightarrow> pystr \<Rightarrow> flowable" where
  "Heading2 styles t = Paragraph t (h2_style styles)"

definition Heading3 :: "stylesheet \<Rightarrow> pystr \<Rightarrow> flowable" where
  "Heading3 styles t = Paragraph t (h3_style styles)"

definition BodyParagraph :: "stylesheet \<Rightarrow> pystr \<Rightarrow> flowable" where
  "BodyParagraph styles t = Paragraph t (body_style styles)"

definition BulletList :: "stylesheet \<Rightarrow> pystr list \<Rightarrow> flowable" where
  "BulletList styles items =
     ListFlowable (map (\<lambda>t. ListItem (Paragraph t (body_style styles)) 12) items)
       ''bullet'' [8226] 6"

text \<open>The test of the bullet branch on one line, and the text of the item made of it.\<close>

definition is_bullet_line :: "pystr \<Rightarrow> bool" where
  "is_bullet_line l \<longleftrightarrow> startswith_any (lstrip l) bullet_markers"

definition bullet_text :: "pystr \<Rightarrow> pystr" where
  "bullet_text l = strip (drop 1 (lstrip l))"

text \<open>
  The texts the paragraphs of a flowable are built from, in the order in which the
  source builds them: the text handed to \<open>Paragraph(...)\<close>, not what ReportLab draws
  for it.
\<close>

fun element_texts :: "flowable \<Rightarrow> pystr list" where
  "element_texts (Paragraph t s) = [t]"
| "element_texts (Spacer w h) = []"
| "element_texts (ListItem f n) = element_texts f"
| "element_texts (ListFlowable items b s n) = concat (map element_texts items)"

text \<open>
  For the proofs: the flowables the lines call for, as a recursion over the lines that
  remain; what building them gives (the exception for the first text that is rejected,
  or the flowables); and one result followed by another. \<open>outer_loop_lines\<close> below
  shows that the loop computes \<open>built rejects (flowables_of_lines styles lines)\<close>.
\<close>

function flowables_of_lines :: "stylesheet \<Rightarrow> pystr list \<Rightarrow> flowable list" where
  "flowables_of_lines styles [] = []"
| "flowables_of_lines styles (l # ls) =
     (if strip l = [] then Spacer 1 6 # flowables_of_lines styles ls
      else if startswith (rstrip l) (ascii ''## '') then
        Heading2 styles (strip (drop 3 (rstrip l))) # flowables_of_lines styles ls
      else if startswith (rstrip l) (ascii ''### '') then
        Heading3 styles (strip (drop 4 (rstrip l))) # flowables_of_lines styles ls
      else if is_bullet_line l then
        BulletList styles (map bullet_text (l # takeWhile is_bullet_line ls))
          # Spacer 1 4 # flowables_of_lines styles (dropWhile is_bullet_line ls)
      else BodyParagraph styles (rstrip l) # flowables_of_lines styles ls)"
  by pat_completeness auto
termination
  by (relation "measure (\<lambda>(styles, ls). length ls)")
     (auto simp: less_Suc_eq_le length_dropWhile_le)

definition built :: "markup_parser \<Rightarrow> flowable list \<Rightarrow> py_exception + flowable list" where
  "built rejects flow =
     (case find (paragraph_rejected rejects) (concat (map element_texts flow)) of
        None \<Rightarrow> Inr flow
      | Some t \<Rightarrow> Inl (ValueError t))"

definition followed_by ::
  "py_exception + flowable list \<Rightarrow> py_exception + flowable list \<Rightarrow> py_exception + flowable list" where
  "followed_by r1 r2 =
     (case r1 of
        Inl e \<Rightarrow> Inl e
      | Inr xs \<Rightarrow> (case r2 of Inl e \<Rightarrow> Inl e | Inr ys \<Rightarrow> Inr (xs @ ys)))"


text \<open>A markup parser for concrete runs: it fails on exactly the text \<open>t\<close>.\<close>

definition rejecting :: "pystr \<Rightarrow> markup_parser" where
  "rejecting t x \<longleftrightarrow> x = t"

section \<open>The completion requester\<close>

text \<open>
  The values the extractor inspects with \<open>isinstance\<close>: a string, a list, a dict (its
  entries in order), \<open>None\<close>, or anything else.
\<close>

datatype pyobj = PyStr pystr
  | PyList "pyobj list"
  | PyDict "(pystr \<times> pyobj) list"
  | PyNone
  | PyOther

text \<open>
  A chat completion: \<open>choices\<close> holds, for each choice, its \<open>message.content\<close>, and
  \<open>usage\<close> is what \<open>getattr(comp, "usage", None)\<close> reads.
\<close>

record completion =
  choices :: "pyobj list"
  usage :: pyobj

fun str_exception :: "py_exception \<Rightarrow> pystr" where
  "str_exception (RuntimeError m) = m"
| "str_exception (APIError m) = m"
| "str_exception (ValueError m) = m"

fun str_last_error :: "py_exception option \<Rightarrow> pystr" where
  "str_last_error None = ascii ''None''"
| "str_last_error (Some e) = str_exception e"

record chat_request =
  model :: pystr
  messages :: "(pystr \<times> pystr) list"
  max_tokens :: nat
  temperature :: rat

text \<open>
  The provider behind \<open>client.chat.completions.create\<close>: what the request number \<open>k\<close>
  (counted from 0) gets, an exception raised or a completion returned.
\<close>

type_synonym client = "nat \<Rightarrow> chat_request \<Rightarrow> py_exception + completion"

text \<open>
  The state the function works on: the requests issued so far, and the two entries of
  \<open>st.session_state\<close> it writes (\<open>None\<close> while an entry is absent).
\<close>

record run_state =
  issued :: "chat_request list"
  last_model_used :: "pystr option"
  last_usage :: "pyobj option"

definition chat_completions_create ::
  "client \<Rightarrow> run_state \<Rightarrow> chat_request \<Rightarrow> (py_exception + completion) \<times> run_state" where
  "chat_completions_create cl st req =
     (cl (length (issued st)) req, st\<lparr>issued := issued st @ [req]\<rparr>)"

text \<open>The \<open>for p in txt\<close> loop of the extractor.\<close>

fun extract_parts :: "pyobj list \<Rightarrow> pystr list" where
  "extract_parts [] = []"
| "extract_parts (PyStr s # ps) = s # extract_parts ps"
| "extract_parts (PyDict d # ps) =
     (case map_of d (ascii ''text'') of
        Some (PyStr t) \<Rightarrow> t # extract_parts ps
      | _ \<Rightarrow> extract_parts ps)"
| "extract_parts (p # ps) = extract_parts ps"

text \<open>
  \<open>_extract_text_from_chat_completion\<close>. \<open>comp.choices[0]\<close> raises on an empty list; the
  \<open>except Exception\<close> around the body turns that into the final \<open>return ""\<close>.
\<close>

definition extract_text_from_chat_completion :: "completion \<Rightarrow> pystr" where
  "extract_text_from_chat_completion compl =
     (case choices compl of
        [] \<Rightarrow> []
      | txt # _ \<Rightarrow>
          (case txt of
             PyStr s \<Rightarrow> if strip s \<noteq> [] then s else []
           | PyList ps \<Rightarrow>
               (let joined = strip (join [10] (extract_parts ps))
                in if joined \<noteq> [] then joined else [])
           | _ \<Rightarrow> []))"

definition make_request :: "(pystr \<times> pystr) list \<Rightarrow> pystr \<Rightarrow> chat_request" where
  "make_request msgs model_name =
     \<lparr>model = model_name, messages = msgs, max_tokens = 2500, temperature = 7 / 10\<rparr>"

definition empty_content_error :: "pystr \<Rightarrow> py_exception" where
  "empty_content_error model_name =
     RuntimeError (ascii ''Model '' @ [39] @ model_name @ [39] @ ascii '' returned empty content.'')"

text \<open>
  The \<open>for model_name in FALLBACK_MODELS\<close> loop with its \<open>try\<close>, and the \<open>raise\<close> after it.
  The result is \<open>Inl\<close> of the exception raised or \<open>Inr\<close> of the text returned.
\<close>

fun fallback_loop ::
  "client \<Rightarrow> (pystr \<times> pystr) list \<Rightarrow> pystr list \<Rightarrow> py_exception option \<Rightarrow> run_state \<Rightarrow>
     (py_exception + pystr) \<times> run_state" where
  "fallback_loop cl msgs [] last_error st =
     (Inl (RuntimeError (ascii ''All model attempts failed. Last error: '' @ str_last_error last_error)),
      st)"
| "fallback_loop cl msgs (model_name # rest) last_error st =
     (case chat_completions_create cl st (make_request msgs model_name) of
        (Inl e, st1) \<Rightarrow> fallback_loop cl msgs rest (Some e) st1
      | (Inr compl, st1) \<Rightarrow>
          (let text = extract_text_from_chat_completion compl in
           if strip text \<noteq> [] then
             (Inr text, st1\<lparr>last_model_used := Some model_name, last_usage := Some (usage compl)\<rparr>)
           else fallback_loop cl msgs rest (Some (empty_content_error model_name)) st1))"

text \<open>
  \<open>get_travel_plan_markdown\<close>. The globals it reads are parameters: the client, the system
  prompt and the list of models, which in the source is \<open>FALLBACK_MODELS\<close>.
\<close>

definition FALLBACK_MODELS :: "pystr list" where
  "FALLBACK_MODELS = [ascii ''gpt-4o'', ascii ''gpt-4o-mini'', ascii ''gpt-4-turbo'']"

definition chat_messages :: "pystr \<Rightarrow> pystr \<Rightarrow> (pystr \<times> pystr) list" where
  "chat_messages system_prompt user_prompt =
     [(ascii ''system'', system_prompt), (ascii ''user'', user_prompt)]"

definition get_travel_plan_markdown ::
  "client \<Rightarrow> pystr \<Rightarrow> pystr list \<Rightarrow> pystr \<Rightarrow> run_state \<Rightarrow> (py_exception + pystr) \<times> run_state" where
  "get_travel_plan_markdown cl system_prompt models user_prompt st =
     fallback_loop cl (chat_messages system_prompt user_prompt) models None st"

text \<open>
  The vocabulary of the statements about the fallback: an attempt fails when the request
  raises or the text extracted from its completion is only whitespace, and the error
  the loop records for a failed attempt is the exception raised or the empty-content
  error naming the model.
\<close>

definition attempt_fails :: "client \<Rightarrow> nat \<Rightarrow> chat_request \<Rightarrow> bool" where
  "attempt_fails cl k req =
     (case cl k req of
        Inl e \<Rightarrow> True
      | Inr compl \<Rightarrow> strip (extract_text_from_chat_completion compl) = [])"

definition recorded_error :: "client \<Rightarrow> nat \<Rightarrow> chat_request \<Rightarrow> py_exception" where
  "recorded_error cl k req =
     (case cl k req of
        Inl e \<Rightarrow> e
      | Inr compl \<Rightarrow> empty_content_error (model req))"

text \<open>
  A provider for concrete runs: it answers request number \<open>k\<close> with entry \<open>k\<close> of a script,
  and raises once the script is used up.
\<close>

definition scripted_client :: "(py_exception + completion) list \<Rightarrow> client" where
  "scripted_client script k req =
     (if k < length script then script ! k else Inl (APIError (ascii ''connection error'')))"

section \<open>Facts about the string operations\<close>

lemma rstrip_Nil: "rstrip [] = []"
  by (simp add: rstrip_def)

lemma rstrip_Cons:
  "rstrip (c # r) = (if isspace c \<and> rstrip r = [] then [] else c # rstrip r)"
proof (cases "\<forall>x\<in>set r. isspace x")
  case True
  then have "dropWhile isspace (rev r @ [c]) = dropWhile isspace [c]"
    by (intro dropWhile_append2) simp
  moreover from True have "dropWhile isspace (rev r) = []" by simp
  ultimately show ?thesis by (simp add: rstrip_def)
next
  case False
  then obtain x where "x \<in> set (rev r)" "\<not> isspace x" by auto
  then have "dropWhile isspace (rev r @ [c]) = dropWhile isspace (rev r) @ [c]"
    by (rule dropWhile_append1)
  moreover from False have "dropWhile isspace (rev r) \<noteq> []" by simp
  ultimately show ?thesis by (simp add: rstrip_def)
qed

lemma rstrip_eq_Nil: "rstrip s = [] \<longleftrightarrow> (\<forall>c\<in>set s. isspace c)"
  by (simp add: rstrip_def)

lemma lstrip_eq_Nil: "lstrip s = [] \<longleftrightarrow> (\<forall>c\<in>set s. isspace c)"
  by (simp add: lstrip_def)

lemma lstrip_rstrip: "lstrip (rstrip s) = rstrip (lstrip s)"
proof (induction s)
  case Nil
  show ?case by (simp add: lstrip_def rstrip_Nil)
next
  case (Cons c r)
  show ?case
  proof (cases "isspace c")
    case True
    show ?thesis
    proof (cases "\<forall>x\<in>set r. isspace x")
      case True
      then have dw: "dropWhile isspace r = []" by simp
      from True \<open>isspace c\<close> show ?thesis
        by (simp add: rstrip_Cons lstrip_def rstrip_Nil rstrip_eq_Nil dw)
    next
      case False
      then have "rstrip r \<noteq> []" by (simp add: rstrip_eq_Nil)
      with Cons \<open>isspace c\<close> show ?thesis
        by (simp add: rstrip_Cons lstrip_def)
    qed
  next
    case False
    then show ?thesis by (simp add: rstrip_Cons lstrip_def)
  qed
qed

lemma strip_eq_Nil: "strip s = [] \<longleftrightarrow> (\<forall>c\<in>set s. isspace c)"
proof -
  have "strip s = lstrip (rstrip s)" by (simp add: strip_def lstrip_rstrip)
  moreover have "set (rstrip s) \<subseteq> set s"
    unfolding rstrip_def using set_dropWhileD [of _ isspace "rev s"] by auto
  moreover have "(\<forall>c\<in>set s. isspace c) \<Longrightarrow> rstrip s = []" by (simp add: rstrip_eq_Nil)
  moreover have "lstrip (rstrip s) = [] \<Longrightarrow> rstrip s = []"
  proof (rule ccontr)
    assume a: "lstrip (rstrip s) = []" and b: "rstrip s \<noteq> []"
    from b have "dropWhile isspace (rev s) \<noteq> []" by (simp add: rstrip_def)
    then have "\<not> isspace (hd (dropWhile isspace (rev s)))" by (rule hd_dropWhile)
    moreover have "hd (dropWhile isspace (rev s)) \<in> set (rstrip s)"
      using \<open>dropWhile isspace (rev s) \<noteq> []\<close> by (simp add: rstrip_def)
    ultimately show False using a by (auto simp: lstrip_eq_Nil)
  qed
  ultimately show ?thesis by (auto simp: rstrip_eq_Nil lstrip_eq_Nil)
qed

lemma lstrip_hd_rstrip: "lstrip s = c # r \<Longrightarrow> lstrip (rstrip s) = c # rstrip r"
proof -
  assume a: "lstrip s = c # r"
  then have "\<not> isspace c"
    unfolding lstrip_def by (metis hd_dropWhile list.sel(1) list.distinct(1))
  with a show ?thesis by (simp add: lstrip_rstrip rstrip_Cons)
qed

lemma rstrip_idem: "rstrip (rstrip s) = rstrip s"
  by (simp add: rstrip_def)

lemma strip_rstrip: "strip (rstrip s) = strip s"
  by (simp add: strip_def lstrip_rstrip rstrip_idem)


lemma rstrip_decomp: "\<exists>ws. s = rstrip s @ ws \<and> (\<forall>c\<in>set ws. isspace c)"
proof -
  have "rev s = takeWhile isspace (rev s) @ dropWhile isspace (rev s)" by simp
  then have "s = rev (dropWhile isspace (rev s)) @ rev (takeWhile isspace (rev s))"
    by (metis rev_append rev_rev_ident)
  moreover have "\<forall>c\<in>set (rev (takeWhile isspace (rev s))). isspace c"
    by (auto dest: set_takeWhileD)
  ultimately show ?thesis unfolding rstrip_def by blast
qed





lemma startswith_any_bullet:
  "startswith_any s bullet_markers \<longleftrightarrow> (\<exists>c r. s = c # r \<and> (c = 45 \<or> c = 42 \<or> c = 8226))"
  by (cases s) (auto simp: bullet_markers_def startswith_def ascii_def)

lemma is_bullet_line_rstrip: "is_bullet_line (rstrip l) = is_bullet_line l"
proof (cases "lstrip l")
  case Nil
  then show ?thesis by (simp add: is_bullet_line_def lstrip_rstrip rstrip_Nil)
next
  case (Cons c r)
  then show ?thesis by (simp add: is_bullet_line_def lstrip_hd_rstrip startswith_any_bullet)
qed

lemma bullet_line_not_blank: "is_bullet_line l \<Longrightarrow> strip l \<noteq> []"
proof
  assume b: "is_bullet_line l" and "strip l = []"
  then have "lstrip l = []" by (simp add: strip_eq_Nil lstrip_eq_Nil)
  with b show False by (simp add: is_bullet_line_def startswith_any_bullet)
qed

lemma startswith_rstrip: "startswith (rstrip l) p \<Longrightarrow> startswith l p"
proof -
  assume a: "startswith (rstrip l) p"
  obtain ws where s: "l = rstrip l @ ws" using rstrip_decomp by blast
  from a have "length (take (length p) (rstrip l)) = length p"
    unfolding startswith_def by simp
  then have "length p \<le> length (rstrip l)" by simp
  with a show ?thesis unfolding startswith_def by (subst s) simp
qed

lemma hash_line_not_bullet: "startswith l (35 # p) \<Longrightarrow> \<not> is_bullet_line l"
proof -
  assume "startswith l (35 # p)"
  then obtain r where "l = 35 # r" unfolding startswith_def by (cases l) auto
  then show ?thesis
    by (simp add: is_bullet_line_def lstrip_def isspace_def startswith_any_bullet)
qed

section \<open>The loops compute the recursion over the lines\<close>

lemma element_texts_elements:
  "element_texts (Heading2 styles t) = [t]"
  "element_texts (Heading3 styles t) = [t]"
  "element_texts (BodyParagraph styles t) = [t]"
  by (simp_all add: Heading2_def Heading3_def BodyParagraph_def)

lemma element_texts_BulletList: "element_texts (BulletList styles items) = items"
  by (induction items) (simp_all add: BulletList_def)

lemma find_append:
  "find P (xs @ ys) = (case find P xs of None \<Rightarrow> find P ys | Some x \<Rightarrow> Some x)"
  by (induction xs) simp_all

lemma built_append: "built rejects (xs @ ys) = followed_by (built rejects xs) (built rejects ys)"
  by (simp add: built_def followed_by_def find_append split: option.splits)

lemma built_Nil: "built rejects [] = Inr []"
  by (simp add: built_def)

lemma built_Spacer: "built rejects [Spacer w h] = Inr [Spacer w h]"
  by (simp add: built_def)

lemma built_paragraph:
  "built rejects [Paragraph t s] =
     (case new_Paragraph rejects t s of Inl e \<Rightarrow> Inl e | Inr p \<Rightarrow> Inr [p])"
  by (simp add: built_def new_Paragraph_def)

lemma built_bullets:
  "built rejects [BulletList styles items, Spacer w h] =
     (case find (paragraph_rejected rejects) items of
        None \<Rightarrow> Inr [BulletList styles items, Spacer w h]
      | Some t \<Rightarrow> Inl (ValueError t))"
  by (simp add: built_def element_texts_BulletList)

lemma followed_by_simps:
  "followed_by (Inl e) r = Inl e"
  "followed_by (Inr xs) (Inl e) = Inl e"
  "followed_by (Inr xs) (Inr ys) = Inr (xs @ ys)"
  by (simp_all add: followed_by_def)

lemma followed_by_Nil: "followed_by (Inr []) r = r" "followed_by r (Inr []) = r"
  by (simp_all add: followed_by_def split: sum.splits)

lemma followed_by_assoc:
  "followed_by (followed_by a b) c = followed_by a (followed_by b c)"
  by (simp add: followed_by_def split: sum.splits)

lemma bullet_loop_eq:
  "bullet_loop rejects styles lines i items =
     (case find (paragraph_rejected rejects)
        (map bullet_text (takeWhile is_bullet_line (drop i lines))) of
        None \<Rightarrow>
          Inr (i + length (takeWhile is_bullet_line (drop i lines)),
            items @ map (\<lambda>l. ListItem (Paragraph (bullet_text l) (body_style styles)) 12)
              (takeWhile is_bullet_line (drop i lines)))
      | Some t \<Rightarrow> Inl (ValueError t))"
proof (induction rejects styles lines i items rule: bullet_loop.induct)
  case (1 rejects styles lines i items)
  have bt: "strip (drop (Suc 0) (lstrip x)) = bullet_text x" for x
    by (simp add: bullet_text_def)
  show ?case
  proof (cases "i < length lines")
    case inside: True
    then have d: "drop i lines = lines ! i # drop (Suc i) lines"
      by (simp add: Cons_nth_drop_Suc)
    show ?thesis
    proof (cases "startswith_any (lstrip (lines ! i)) bullet_markers")
      case True
      then have b: "is_bullet_line (lines ! i)" by (simp add: is_bullet_line_def)
      show ?thesis
      proof (cases "paragraph_rejected rejects (bullet_text (lines ! i))")
        case rej: True
        with inside True d b show ?thesis
          by (subst bullet_loop.simps) (simp add: new_Paragraph_def bt)
      next
        case acc: False
        then have np: "new_Paragraph rejects (strip (drop 1 (lstrip (lines ! i)))) (body_style styles) =
            Inr (Paragraph (bullet_text (lines ! i)) (body_style styles))"
          by (simp add: new_Paragraph_def bullet_text_def)
        from inside True have c: "i < length lines \<and>
            startswith_any (lstrip (lines ! i)) bullet_markers" by simp
        note ih = "1.IH" [OF c refl np]
        from inside True acc d b np ih show ?thesis
          by (subst bullet_loop.simps) (simp add: bt split: option.splits)
      qed
    next
      case False
      then have "\<not> is_bullet_line (lines ! i)" by (simp add: is_bullet_line_def)
      with False d show ?thesis by (subst bullet_loop.simps) simp
    qed
  next
    case False
    then show ?thesis by (subst bullet_loop.simps) simp
  qed
qed

lemma loop_body_lines:
  assumes "i < length lines"
  shows "\<exists>k es. loop_body rejects styles lines (i, flow) =
             (case built rejects es of Inl e \<Rightarrow> Inl e | Inr b \<Rightarrow> Inr (i + k, flow @ es)) \<and>
           0 < k \<and> i + k \<le> length lines \<and>
           flowables_of_lines styles (drop i lines) =
             es @ flowables_of_lines styles (drop (i + k) lines)"
proof -
  define l where "l = lines ! i"
  define rest where "rest = drop (Suc i) lines"
  from assms have d: "drop i lines = l # rest"
    by (simp add: l_def rest_def Cons_nth_drop_Suc)
  have d1: "drop (i + 1) lines = rest" by (simp add: rest_def)
  from assms have le1: "i + 1 \<le> length lines" by simp
  have br: "startswith_any (lstrip (rstrip l)) bullet_markers = is_bullet_line l"
    using is_bullet_line_rstrip [of l] by (simp add: is_bullet_line_def)
  consider (blank) "strip l = []"
    | (h2) "strip l \<noteq> []" "startswith (rstrip l) (ascii ''## '')"
    | (h3) "strip l \<noteq> []" "\<not> startswith (rstrip l) (ascii ''## '')"
        "startswith (rstrip l) (ascii ''### '')"
    | (bullet) "strip l \<noteq> []" "\<not> startswith (rstrip l) (ascii ''## '')"
        "\<not> startswith (rstrip l) (ascii ''### '')" "is_bullet_line l"
    | (para) "strip l \<noteq> []" "\<not> startswith (rstrip l) (ascii ''## '')"
        "\<not> startswith (rstrip l) (ascii ''### '')" "\<not> is_bullet_line l"
    by blast
  then show ?thesis
  proof cases
    case blank
    then have "loop_body rejects styles lines (i, flow) =
        (case built rejects [Spacer 1 6] of Inl e \<Rightarrow> Inl e
         | Inr b \<Rightarrow> Inr (i + 1, flow @ [Spacer 1 6]))"
      by (simp add: loop_body_def Let_def l_def [symmetric] strip_rstrip built_Spacer)
    moreover from blank have "flowables_of_lines styles (drop i lines) =
        [Spacer 1 6] @ flowables_of_lines styles (drop (i + 1) lines)"
      by (simp only: d d1) simp
    ultimately show ?thesis using le1 by blast
  next
    case h2
    then have "loop_body rejects styles lines (i, flow) =
        (case built rejects [Heading2 styles (strip (drop 3 (rstrip l)))] of Inl e \<Rightarrow> Inl e
         | Inr b \<Rightarrow> Inr (i + 1, flow @ [Heading2 styles (strip (drop 3 (rstrip l)))]))"
      by (simp add: loop_body_def Let_def l_def [symmetric] strip_rstrip Heading2_def
          built_paragraph new_Paragraph_def)
    moreover from h2 have "flowables_of_lines styles (drop i lines) =
        [Heading2 styles (strip (drop 3 (rstrip l)))] @ flowables_of_lines styles (drop (i + 1) lines)"
      by (simp only: d d1) simp
    ultimately show ?thesis using le1 by blast
  next
    case h3
    then have "loop_body rejects styles lines (i, flow) =
        (case built rejects [Heading3 styles (strip (drop 4 (rstrip l)))] of Inl e \<Rightarrow> Inl e
         | Inr b \<Rightarrow> Inr (i + 1, flow @ [Heading3 styles (strip (drop 4 (rstrip l)))]))"
      by (simp add: loop_body_def Let_def l_def [symmetric] strip_rstrip Heading3_def
          built_paragraph new_Paragraph_def)
    moreover from h3 have "flowables_of_lines styles (drop i lines) =
        [Heading3 styles (strip (drop 4 (rstrip l)))] @ flowables_of_lines styles (drop (i + 1) lines)"
      by (simp only: d d1) simp
    ultimately show ?thesis using le1 by blast
  next
    case para
    then have "loop_body rejects styles lines (i, flow) =
        (case built rejects [BodyParagraph styles (rstrip l)] of Inl e \<Rightarrow> Inl e
         | Inr b \<Rightarrow> Inr (i + 1, flow @ [BodyParagraph styles (rstrip l)]))"
      by (simp add: loop_body_def Let_def l_def [symmetric] strip_rstrip br BodyParagraph_def
          built_paragraph new_Paragraph_def)
    moreover from para have "flowables_of_lines styles (drop i lines) =
        [BodyParagraph styles (rstrip l)] @ flowables_of_lines styles (drop (i + 1) lines)"
      by (simp only: d d1) simp
    ultimately show ?thesis using le1 by blast
  next
    case bullet
    define n where "n = length (takeWhile is_bullet_line rest)"
    define es where "es = [BulletList styles (map bullet_text (l # takeWhile is_bullet_line rest)),
        Spacer 1 4]"
    have tw: "takeWhile is_bullet_line (drop i lines) = l # takeWhile is_bullet_line rest"
      using bullet by (simp add: d)
    from bullet have "loop_body rejects styles lines (i, flow) =
        (case built rejects es of Inl e \<Rightarrow> Inl e | Inr b \<Rightarrow> Inr (i + Suc n, flow @ es))"
      unfolding es_def built_bullets
      by (simp add: loop_body_def Let_def l_def [symmetric] strip_rstrip bullet_loop_eq tw
          br n_def BulletList_def o_def split: option.splits)
    moreover have "drop (i + Suc n) lines = dropWhile is_bullet_line rest"
      unfolding n_def rest_def by (simp add: dropWhile_eq_drop add.commute)
    with bullet have "flowables_of_lines styles (drop i lines) =
        es @ flowables_of_lines styles (drop (i + Suc n) lines)"
      by (simp add: d es_def)
    moreover have "i + Suc n \<le> length lines"
    proof -
      have "n \<le> length rest" unfolding n_def by (rule length_takeWhile_le)
      with assms show ?thesis by (simp add: rest_def)
    qed
    ultimately show ?thesis by blast
  qed
qed

lemma outer_loop_lines:
  "outer_loop rejects styles lines i flow =
     Some (followed_by (Inr flow) (built rejects (flowables_of_lines styles (drop i lines))))"
proof (induction "length lines - i" arbitrary: i flow rule: less_induct)
  case less
  show ?case
  proof (cases "i < length lines")
    case True
    from loop_body_lines [OF True, of rejects styles flow]
    obtain k es where lb: "loop_body rejects styles lines (i, flow) =
          (case built rejects es of Inl e \<Rightarrow> Inl e | Inr b \<Rightarrow> Inr (i + k, flow @ es))"
      and k: "0 < k" "i + k \<le> length lines"
      and p: "flowables_of_lines styles (drop i lines) =
          es @ flowables_of_lines styles (drop (i + k) lines)"
      by blast
    show ?thesis
    proof (cases "built rejects es")
      case (Inl e)
      with True lb p show ?thesis
        by (subst outer_loop.simps) (simp add: built_append followed_by_simps)
    next
      case (Inr b)
      then have b: "b = es" by (auto simp: built_def split: option.splits)
      have "outer_loop rejects styles lines i flow =
          outer_loop rejects styles lines (i + k) (flow @ es)"
        using True lb Inr by (subst outer_loop.simps) simp
      also have "\<dots> = Some (followed_by (Inr (flow @ es))
          (built rejects (flowables_of_lines styles (drop (i + k) lines))))"
        using True k by (intro less) arith
      finally show ?thesis using p Inr b
        by (simp add: built_append followed_by_def split: sum.splits)
    qed
  next
    case False
    then show ?thesis
      by (subst outer_loop.simps) (simp add: built_Nil followed_by_simps)
  qed
qed

lemma lines_converted:
  "outer_loop rejects styles lines 0 [] = Some (built rejects (flowables_of_lines styles lines))"
  by (simp add: outer_loop_lines followed_by_Nil)

lemma markdown_to_flowables_lines:
  "markdown_to_flowables rejects md_text styles =
     Some (built rejects (flowables_of_lines styles (splitlines md_text)))"
  by (simp add: markdown_to_flowables_def lines_converted)


section \<open>Splitting the list of lines\<close>

lemma flowables_of_lines_append:
  "xs = [] \<or> \<not> is_bullet_line (last xs) \<or> ys = [] \<or> \<not> is_bullet_line (hd ys) \<Longrightarrow>
   flowables_of_lines styles (xs @ ys) = flowables_of_lines styles xs @ flowables_of_lines styles ys"
proof (induction styles xs rule: flowables_of_lines.induct)
  case (1 styles)
  show ?case by simp
next
  case (2 styles l ls)
  have tail: "ls = [] \<or> \<not> is_bullet_line (last ls) \<or> ys = [] \<or> \<not> is_bullet_line (hd ys)"
    if "\<not> is_bullet_line l" using "2.prems" that by (cases ls) auto
  consider (blank) "strip l = []"
    | (h2) "strip l \<noteq> []" "startswith (rstrip l) (ascii ''## '')"
    | (h3) "strip l \<noteq> []" "\<not> startswith (rstrip l) (ascii ''## '')"
        "startswith (rstrip l) (ascii ''### '')"
    | (bullet) "strip l \<noteq> []" "\<not> startswith (rstrip l) (ascii ''## '')"
        "\<not> startswith (rstrip l) (ascii ''### '')" "is_bullet_line l"
    | (para) "strip l \<noteq> []" "\<not> startswith (rstrip l) (ascii ''## '')"
        "\<not> startswith (rstrip l) (ascii ''### '')" "\<not> is_bullet_line l"
    by blast
  then show ?case
  proof cases
    case blank
    then have "\<not> is_bullet_line l" using bullet_line_not_blank by blast
    with blank "2.IH"(1) tail show ?thesis by simp
  next
    case h2
    then have "\<not> is_bullet_line l"
      using hash_line_not_bullet [of l "[35, 32]"] startswith_rstrip [of l "ascii ''## ''"]
      by (simp add: ascii_def)
    with h2 "2.IH"(2) tail show ?thesis by simp
  next
    case h3
    then have "\<not> is_bullet_line l"
      using hash_line_not_bullet [of l "[35, 35, 32]"] startswith_rstrip [of l "ascii ''### ''"]
      by (simp add: ascii_def)
    with h3 "2.IH"(3) tail show ?thesis by simp
  next
    case para
    with "2.IH"(5) tail show ?thesis by simp
  next
    case bullet
    show ?thesis
    proof (cases "\<forall>x\<in>set ls. is_bullet_line x")
      case True
      then have "is_bullet_line (last (l # ls))" using bullet by (cases ls) auto
      with "2.prems" have ys: "ys = [] \<or> \<not> is_bullet_line (hd ys)" by simp
      then have twy: "takeWhile is_bullet_line ys = []" by (cases ys) auto
      from ys have dwy: "dropWhile is_bullet_line ys = ys" by (cases ys) auto
      from True have a: "takeWhile is_bullet_line (ls @ ys) = ls"
        and b: "dropWhile is_bullet_line (ls @ ys) = ys"
        and c: "takeWhile is_bullet_line ls = ls"
        and d: "dropWhile is_bullet_line ls = []"
        by (simp_all add: takeWhile_append2 dropWhile_append2 twy dwy)
      from bullet show ?thesis by (simp add: a b c d)
    next
      case False
      then obtain x where x: "x \<in> set ls" "\<not> is_bullet_line x" by blast
      then have tw: "takeWhile is_bullet_line (ls @ ys) = takeWhile is_bullet_line ls"
        and dw: "dropWhile is_bullet_line (ls @ ys) = dropWhile is_bullet_line ls @ ys"
        by (simp_all add: takeWhile_append1 dropWhile_append1)
      from False have ne: "dropWhile is_bullet_line ls \<noteq> []" by simp
      then have "last (dropWhile is_bullet_line ls) = last (l # ls)"
        by (metis append_is_Nil_conv last_ConsR last_appendR takeWhile_dropWhile_id)
      with "2.prems" ne have
        "dropWhile is_bullet_line ls = [] \<or> \<not> is_bullet_line (last (dropWhile is_bullet_line ls))
           \<or> ys = [] \<or> \<not> is_bullet_line (hd ys)"
        by auto
      from "2.IH"(4) [OF bullet this] bullet tw dw show ?thesis by simp
    qed
  qed
qed

lemmas eval_simps = ascii_def splitlines_def is_linebreak_def isspace_def strip_def lstrip_def
  rstrip_def startswith_def is_bullet_line_def bullet_markers_def bullet_text_def

lemmas built_simps = built_def element_texts_elements element_texts_BulletList
  paragraph_rejected_def has_markup_def rejecting_def followed_by_def new_Paragraph_def

lemma in_context:
  assumes "splitlines md_text = pre @ mid @ post" and "mid \<noteq> []"
    and "pre = [] \<or> \<not> is_bullet_line (last pre) \<or> \<not> is_bullet_line (hd mid)"
    and "\<not> is_bullet_line (last mid) \<or> post = [] \<or> \<not> is_bullet_line (hd post)"
  shows "\<exists>rb ra. outer_loop rejects styles pre 0 [] = Some rb \<and>
           outer_loop rejects styles post 0 [] = Some ra \<and>
           markdown_to_flowables rejects md_text styles =
             Some (followed_by rb
               (followed_by (built rejects (flowables_of_lines styles mid)) ra))"
proof -
  have "flowables_of_lines styles (pre @ mid @ post) =
      flowables_of_lines styles pre @ flowables_of_lines styles (mid @ post)"
    using assms(2,3) by (intro flowables_of_lines_append) auto
  also have "flowables_of_lines styles (mid @ post) =
      flowables_of_lines styles mid @ flowables_of_lines styles post"
    using assms(2,4) by (intro flowables_of_lines_append) auto
  finally show ?thesis
    by (simp add: markdown_to_flowables_lines lines_converted assms(1) built_append)
qed

lemma line_in_context:
  assumes "splitlines md_text = pre @ l # post" and "\<not> is_bullet_line l"
  shows "\<exists>rb ra. outer_loop rejects styles pre 0 [] = Some rb \<and>
           outer_loop rejects styles post 0 [] = Some ra \<and>
           markdown_to_flowables rejects md_text styles =
             Some (followed_by rb
               (followed_by (built rejects (flowables_of_lines styles [l])) ra))"
  using in_context [of md_text pre "[l]" post rejects styles] assms by simp



text \<open>
  C5. The end-to-end scenario of the specification: whatever marked-up texts ReportLab
  rejects, the input
  \<open>"## Trip Overview\nA great trip.\n\n### Day 1\n- Museum\n- Lunch\n"\<close> is converted to
  exactly Heading2 "Trip Overview", Paragraph "A great trip.", Spacer, Heading3 "Day 1",
  BulletList ["Museum", "Lunch"], Spacer; and in any input, a blank line gives exactly
  one \<open>Spacer(1, 6)\<close> between what the lines before it and the lines after it give.
\<close>

theorem end_to_end_scenario:
  "markdown_to_flowables rejects
     (ascii ''## Trip Overview\<newline>A great trip.\<newline>\<newline>### Day 1\<newline>- Museum\<newline>- Lunch\<newline>'')
     styles =
   Some (Inr [Heading2 styles (ascii ''Trip Overview''),
     BodyParagraph styles (ascii ''A great trip.''),
     Spacer 1 6, Heading3 styles (ascii ''Day 1''),
     BulletList styles [ascii ''Museum'', ascii ''Lunch''], Spacer 1 4]) \<and>
   (\<forall>md_text pre l post. splitlines md_text = pre @ l # post \<and> strip l = [] \<longrightarrow>
      (\<exists>rb ra. outer_loop rejects styles pre 0 [] = Some rb \<and>
         outer_loop rejects styles post 0 [] = Some ra \<and>
         markdown_to_flowables rejects md_text styles =
           Some (followed_by rb (followed_by (Inr [Spacer 1 6]) ra))))"
proof (intro conjI allI impI)
  show "markdown_to_flowables rejects
     (ascii ''## Trip Overview\<newline>A great trip.\<newline>\<newline>### Day 1\<newline>- Museum\<newline>- Lunch\<newline>'')
     styles =
   Some (Inr [Heading2 styles (ascii ''Trip Overview''),
     BodyParagraph styles (ascii ''A great trip.''),
     Spacer 1 6, Heading3 styles (ascii ''Day 1''),
     BulletList styles [ascii ''Museum'', ascii ''Lunch''], Spacer 1 4])"
    by (simp add: markdown_to_flowables_lines eval_simps built_simps)
next
  fix md_text pre l post
  assume a: "splitlines md_text = pre @ l # post \<and> strip l = []"
  then have "\<not> is_bullet_line l" using bullet_line_not_blank by blast
  with a line_in_context [of md_text pre l post rejects styles] show
    "\<exists>rb ra. outer_loop rejects styles pre 0 [] = Some rb \<and>
       outer_loop rejects styles post 0 [] = Some ra \<and>
       markdown_to_flowables rejects md_text styles =
         Some (followed_by rb (followed_by (Inr [Spacer 1 6]) ra))"
    by (simp add: built_Spacer)
qed

theorem end_to_end_scenario_witness:
  "markdown_to_flowables (rejecting (ascii ''a<b'')) (ascii ''a\<newline> \<newline>b'') SheetStyle =
     Some (Inr [BodyParagraph SheetStyle (ascii ''a''), Spacer 1 6,
       BodyParagraph SheetStyle (ascii ''b'')])"
proof -
  have s: "splitlines (ascii ''a\<newline> \<newline>b'') = [ascii ''a''] @ ascii '' '' # [ascii ''b'']
      \<and> strip (ascii '' '') = []"
    by (simp add: eval_simps)
  from end_to_end_scenario [of "rejecting (ascii ''a<b'')" SheetStyle, THEN conjunct2,
      rule_format, OF s]
  show ?thesis by (simp add: lines_converted eval_simps built_simps)
qed







text \<open>
  C6. The docstring of the converter says \<open>'## ' -> Heading2\<close>, and for a line with text
  after the marker the converter does that: \<open>"## Trip Overview"\<close> gives Heading2
  "Trip Overview" and \<open>"### Day 1"\<close> gives Heading3 "Day 1". But the line is right-trimmed
  before the test for the marker: the line \<open>"## "\<close>, which starts with the heading-2
  marker followed by a space, has become \<open>"##"\<close> when it is tested, and is converted to
  the body paragraph \<open>"##"\<close>, not to a Heading2 with the trimmed remainder (the empty
  text).
\<close>

theorem heading_bare_marker_is_paragraph:
  "startswith (ascii ''## '') (ascii ''## '') \<and>
   markdown_to_flowables rejects (ascii ''## '') styles =
     Some (Inr [BodyParagraph styles (ascii ''##'')]) \<and>
   markdown_to_flowables rejects (ascii ''## '') styles \<noteq>
     Some (Inr [Heading2 styles (strip (drop 3 (ascii ''## '')))]) \<and>
   markdown_to_flowables rejects (ascii ''## Trip Overview'') styles =
     Some (Inr [Heading2 styles (ascii ''Trip Overview'')]) \<and>
   markdown_to_flowables rejects (ascii ''### Day 1'') styles =
     Some (Inr [Heading3 styles (ascii ''Day 1'')])"
  by (simp add: markdown_to_flowables_lines eval_simps built_simps Heading2_def
      BodyParagraph_def)




section \<open>Every line is accounted for\<close>




















section \<open>The fallback loop\<close>

lemma fallback_loop_first_success:
  assumes "k < length models"
    and "cl (length (issued st) + k) (make_request msgs (models ! k)) = Inr c"
    and "strip (extract_text_from_chat_completion c) \<noteq> []"
    and "\<forall>j<k. attempt_fails cl (length (issued st) + j) (make_request msgs (models ! j))"
  shows "fallback_loop cl msgs models last_error st =
     (Inr (extract_text_from_chat_completion c),
      st\<lparr>issued := issued st @ map (make_request msgs) (take (Suc k) models),
         last_model_used := Some (models ! k), last_usage := Some (usage c)\<rparr>)"
  using assms
proof (induction models arbitrary: k st last_error)
  case Nil
  then show ?case by simp
next
  case (Cons m rest)
  show ?case
  proof (cases k)
    case 0
    with Cons.prems show ?thesis
      by (simp add: chat_completions_create_def)
  next
    case (Suc k')
    define st1 where "st1 = st\<lparr>issued := issued st @ [make_request msgs m]\<rparr>"
    have len: "length (issued st1) = Suc (length (issued st))" by (simp add: st1_def)
    from Cons.prems(4) Suc have f0: "attempt_fails cl (length (issued st)) (make_request msgs m)"
      by (metis add.right_neutral nth_Cons_0 zero_less_Suc)
    have step: "fallback_loop cl msgs (m # rest) last_error st =
        fallback_loop cl msgs rest (Some (recorded_error cl (length (issued st)) (make_request msgs m))) st1"
      using f0
      by (auto simp: chat_completions_create_def attempt_fails_def recorded_error_def st1_def
          make_request_def split: sum.splits)
    have "fallback_loop cl msgs rest
        (Some (recorded_error cl (length (issued st)) (make_request msgs m))) st1 =
       (Inr (extract_text_from_chat_completion c),
        st1\<lparr>issued := issued st1 @ map (make_request msgs) (take (Suc k') rest),
           last_model_used := Some (rest ! k'), last_usage := Some (usage c)\<rparr>)"
    proof (rule Cons.IH)
      show "k' < length rest" using Cons.prems(1) Suc by simp
      show "cl (length (issued st1) + k') (make_request msgs (rest ! k')) = Inr c"
        using Cons.prems(2) Suc by (simp add: len)
      show "strip (extract_text_from_chat_completion c) \<noteq> []" by (rule Cons.prems(3))
      show "\<forall>j<k'. attempt_fails cl (length (issued st1) + j) (make_request msgs (rest ! j))"
      proof (intro allI impI)
        fix j assume "j < k'"
        then have "Suc j < k" using Suc by simp
        with Cons.prems(4) have "attempt_fails cl (length (issued st) + Suc j)
            (make_request msgs ((m # rest) ! Suc j))" by blast
        then show "attempt_fails cl (length (issued st1) + j) (make_request msgs (rest ! j))"
          by (simp add: len)
      qed
    qed
    with step Suc show ?thesis by (simp add: st1_def)
  qed
qed

lemma fallback_loop_exhausted:
  assumes "\<forall>j<length models.
      attempt_fails cl (length (issued st) + j) (make_request msgs (models ! j))"
  shows "fallback_loop cl msgs models last_error st =
     (Inl (RuntimeError (ascii ''All model attempts failed. Last error: '' @
        str_last_error
          (if models = [] then last_error
           else Some (recorded_error cl (length (issued st) + (length models - 1))
             (make_request msgs (last models)))))),
      st\<lparr>issued := issued st @ map (make_request msgs) models\<rparr>)"
  using assms
proof (induction models arbitrary: st last_error)
  case Nil
  show ?case by simp
next
  case (Cons m rest)
  define st1 where "st1 = st\<lparr>issued := issued st @ [make_request msgs m]\<rparr>"
  have len: "length (issued st1) = Suc (length (issued st))" by (simp add: st1_def)
  from Cons.prems have f0: "attempt_fails cl (length (issued st)) (make_request msgs m)"
    by (metis add.right_neutral length_Cons nth_Cons_0 zero_less_Suc)
  have step: "fallback_loop cl msgs (m # rest) last_error st =
      fallback_loop cl msgs rest (Some (recorded_error cl (length (issued st)) (make_request msgs m))) st1"
    using f0
    by (auto simp: chat_completions_create_def attempt_fails_def recorded_error_def st1_def
        make_request_def split: sum.splits)
  have rest_fails: "\<forall>j<length rest.
      attempt_fails cl (length (issued st1) + j) (make_request msgs (rest ! j))"
  proof (intro allI impI)
    fix j assume "j < length rest"
    then have "Suc j < length (m # rest)" by simp
    with Cons.prems have "attempt_fails cl (length (issued st) + Suc j)
        (make_request msgs ((m # rest) ! Suc j))" by blast
    then show "attempt_fails cl (length (issued st1) + j) (make_request msgs (rest ! j))"
      by (simp add: len)
  qed
  show ?case
  proof (cases "rest = []")
    case True
    with step show ?thesis by (simp add: st1_def)
  next
    case False
    then obtain r rs where rest: "rest = r # rs" by (cases rest) auto
    have idx: "length (issued st1) + (length rest - 1) =
        length (issued st) + (length (m # rest) - 1)"
      by (simp add: rest len)
    have lst: "last (m # rest) = last rest" using False by simp
    have ih: "fallback_loop cl msgs rest
        (Some (recorded_error cl (length (issued st)) (make_request msgs m))) st1 =
       (Inl (RuntimeError (ascii ''All model attempts failed. Last error: '' @
          str_last_error (Some (recorded_error cl (length (issued st1) + (length rest - 1))
             (make_request msgs (last rest)))))),
        st1\<lparr>issued := issued st1 @ map (make_request msgs) rest\<rparr>)"
      using Cons.IH [OF rest_fails] False by (simp del: fallback_loop.simps)
    have st: "st1\<lparr>issued := issued st1 @ map (make_request msgs) rest\<rparr> =
        st\<lparr>issued := issued st @ map (make_request msgs) (m # rest)\<rparr>"
      by (simp add: st1_def)
    show ?thesis unfolding step ih idx lst st by simp
  qed
qed

text \<open>
  C1. For a list of models in which the candidate at position \<open>k\<close> is the first whose
  request returns a completion with extracted text that is non-empty after trimming
  (every earlier candidate raises or gives only whitespace), \<open>get_travel_plan_markdown\<close>
  returns that candidate's extracted text, records that candidate's identifier as the
  model used, and has issued exactly the requests for the candidates up to position
  \<open>k\<close>: none for a later candidate. The source returns the text and leaves the
  identifier in the session state.
\<close>

theorem first_success_wins:
  assumes "k < length models"
    and "cl (length (issued st) + k)
           (make_request (chat_messages system_prompt user_prompt) (models ! k)) = Inr c"
    and "strip (extract_text_from_chat_completion c) \<noteq> []"
    and "\<forall>j<k. attempt_fails cl (length (issued st) + j)
           (make_request (chat_messages system_prompt user_prompt) (models ! j))"
  shows "get_travel_plan_markdown cl system_prompt models user_prompt st =
     (Inr (extract_text_from_chat_completion c),
      st\<lparr>issued := issued st @
           map (make_request (chat_messages system_prompt user_prompt)) (take (Suc k) models),
         last_model_used := Some (models ! k), last_usage := Some (usage c)\<rparr>)"
  unfolding get_travel_plan_markdown_def using assms by (rule fallback_loop_first_success)

lemmas run_simps = scripted_client_def FALLBACK_MODELS_def attempt_fails_def recorded_error_def
  extract_text_from_chat_completion_def make_request_def chat_messages_def
  empty_content_error_def

theorem first_success_wins_witness:
  "get_travel_plan_markdown
     (scripted_client
        [Inl (APIError (ascii ''rate limit'')),
         Inr \<lparr>choices = [PyStr (ascii ''## Plan'')], usage = PyOther\<rparr>])
     (ascii ''guide'') FALLBACK_MODELS (ascii ''Paris'')
     \<lparr>issued = [], last_model_used = None, last_usage = None\<rparr> =
   (Inr (ascii ''## Plan''),
    \<lparr>issued =
       [make_request (chat_messages (ascii ''guide'') (ascii ''Paris'')) (ascii ''gpt-4o''),
        make_request (chat_messages (ascii ''guide'') (ascii ''Paris'')) (ascii ''gpt-4o-mini'')],
     last_model_used = Some (ascii ''gpt-4o-mini''), last_usage = Some PyOther\<rparr>)"
proof -
  let ?cl = "scripted_client
        [Inl (APIError (ascii ''rate limit'')),
         Inr \<lparr>choices = [PyStr (ascii ''## Plan'')], usage = PyOther\<rparr>]"
  let ?st = "\<lparr>issued = [], last_model_used = None, last_usage = None\<rparr>"
  let ?msgs = "chat_messages (ascii ''guide'') (ascii ''Paris'')"
  let ?c = "\<lparr>choices = [PyStr (ascii ''## Plan'')], usage = PyOther\<rparr>"
  have 1: "1 < length FALLBACK_MODELS" by (simp add: FALLBACK_MODELS_def)
  have 2: "?cl (length (issued ?st) + 1) (make_request ?msgs (FALLBACK_MODELS ! 1)) = Inr ?c"
    by (simp add: scripted_client_def)
  have 3: "strip (extract_text_from_chat_completion ?c) \<noteq> []"
    by (simp add: extract_text_from_chat_completion_def eval_simps)
  have 4: "\<forall>j<1. attempt_fails ?cl (length (issued ?st) + j)
      (make_request ?msgs (FALLBACK_MODELS ! j))"
    by (simp add: attempt_fails_def scripted_client_def)
  from first_success_wins [OF 1 2 3 4]
  show ?thesis
    by (simp add: FALLBACK_MODELS_def extract_text_from_chat_completion_def eval_simps)
qed

text \<open>
  C2. When every candidate of the list fails (its request raises, or the text extracted
  from its completion is only whitespace), \<open>get_travel_plan_markdown\<close> raises the one
  \<open>RuntimeError\<close> "All model attempts failed. Last error: ...", the exhaustion failure,
  whose text reports the error recorded for the last candidate attempted (\<open>None\<close> when
  the list is empty). A request has been issued for every candidate, whether the one
  before it raised or gave empty content, and the session state is otherwise unchanged;
  no other error reaches the caller.
\<close>

theorem all_models_exhausted:
  assumes "\<forall>j<length models. attempt_fails cl (length (issued st) + j)
             (make_request (chat_messages system_prompt user_prompt) (models ! j))"
  shows "get_travel_plan_markdown cl system_prompt models user_prompt st =
     (Inl (RuntimeError (ascii ''All model attempts failed. Last error: '' @
        str_last_error
          (if models = [] then None
           else Some (recorded_error cl (length (issued st) + (length models - 1))
             (make_request (chat_messages system_prompt user_prompt) (last models)))))),
      st\<lparr>issued := issued st @
        map (make_request (chat_messages system_prompt user_prompt)) models\<rparr>)"
  unfolding get_travel_plan_markdown_def using assms by (rule fallback_loop_exhausted)

theorem all_models_exhausted_witness:
  "get_travel_plan_markdown
     (scripted_client
        [Inl (APIError (ascii ''rate limit'')),
         Inr \<lparr>choices = [PyStr (ascii ''  '')], usage = PyNone\<rparr>,
         Inr \<lparr>choices = [], usage = PyNone\<rparr>])
     (ascii ''guide'') FALLBACK_MODELS (ascii ''Paris'')
     \<lparr>issued = [], last_model_used = None, last_usage = None\<rparr> =
   (Inl (RuntimeError (ascii ''All model attempts failed. Last error: Model '' @ [39] @
      ascii ''gpt-4-turbo'' @ [39] @ ascii '' returned empty content.'')),
    \<lparr>issued =
       map (make_request (chat_messages (ascii ''guide'') (ascii ''Paris''))) FALLBACK_MODELS,
     last_model_used = None, last_usage = None\<rparr>)"
proof -
  let ?cl = "scripted_client
        [Inl (APIError (ascii ''rate limit'')),
         Inr \<lparr>choices = [PyStr (ascii ''  '')], usage = PyNone\<rparr>,
         Inr \<lparr>choices = [], usage = PyNone\<rparr>]"
  let ?st = "\<lparr>issued = [], last_model_used = None, last_usage = None\<rparr>"
  let ?msgs = "chat_messages (ascii ''guide'') (ascii ''Paris'')"
  have "attempt_fails ?cl 0 (make_request ?msgs (ascii ''gpt-4o''))"
    "attempt_fails ?cl 1 (make_request ?msgs (ascii ''gpt-4o-mini''))"
    "attempt_fails ?cl 2 (make_request ?msgs (ascii ''gpt-4-turbo''))"
    by (simp_all add: attempt_fails_def scripted_client_def
        extract_text_from_chat_completion_def eval_simps)
  then have "\<forall>j<length FALLBACK_MODELS. attempt_fails ?cl (length (issued ?st) + j)
      (make_request ?msgs (FALLBACK_MODELS ! j))"
    by (simp add: FALLBACK_MODELS_def less_Suc_eq numeral_3_eq_3 numeral_2_eq_2)
  from all_models_exhausted [OF this]
  show ?thesis
    by (simp add: FALLBACK_MODELS_def recorded_error_def scripted_client_def
        empty_content_error_def make_request_def ascii_def)
qed

text \<open>
  C7. The extractor handles a content that is a plain string and a content that is a
  list of parts, but it trims only on the list path: for the list of the one part
  \<open>" Rome "\<close> the extracted text is the joined text trimmed, \<open>"Rome"\<close>, while for the
  plain string \<open>" Rome "\<close> it is the string as it is, \<open>" Rome "\<close>, and this untrimmed text
  is what \<open>get_travel_plan_markdown\<close> returns.
\<close>

theorem plain_string_returned_untrimmed:
  "extract_text_from_chat_completion
     \<lparr>choices = [PyStr (ascii '' Rome '')], usage = PyNone\<rparr> = ascii '' Rome '' \<and>
   extract_text_from_chat_completion
     \<lparr>choices = [PyStr (ascii '' Rome '')], usage = PyNone\<rparr> \<noteq>
     strip (join [10] [ascii '' Rome '']) \<and>
   extract_text_from_chat_completion
     \<lparr>choices = [PyList [PyStr (ascii '' Rome '')]], usage = PyNone\<rparr> = ascii ''Rome'' \<and>
   extract_text_from_chat_completion
     \<lparr>choices = [PyList [PyStr (ascii '' Day 1''), PyNone,
        PyDict [(ascii ''type'', PyStr (ascii ''text'')), (ascii ''text'', PyStr (ascii ''Forum ''))]]],
      usage = PyNone\<rparr> = ascii ''Day 1\<newline>Forum'' \<and>
   fst (get_travel_plan_markdown
     (scripted_client [Inr \<lparr>choices = [PyStr (ascii '' Rome '')], usage = PyNone\<rparr>])
     (ascii ''guide'') [ascii ''gpt-4o''] (ascii ''Rome'')
     \<lparr>issued = [], last_model_used = None, last_usage = None\<rparr>) = Inr (ascii '' Rome '')"
  by (simp add: get_travel_plan_markdown_def chat_completions_create_def run_simps eval_simps)

end
